theory Spec2Isabelle
  imports Main "HOL-Library.Sublist"
begin

section \<open>Workflow-compliance callbacks of the restaurant agent\<close>

text \<open>
  A shallow embedding of \<^verbatim>\<open>restaurant_agent/callbacks.py\<close>: the two tracker callbacks
  (\<^verbatim>\<open>track_waiter_tools\<close>, \<^verbatim>\<open>track_captain_tools\<close>) and the two gates
  (\<^verbatim>\<open>enforce_waiter_prerequisites\<close>, \<^verbatim>\<open>enforce_captain_workflow\<close>).
  The callbacks mutate the session state and the outgoing request in place; the model passes
  both explicitly and returns the updated copies. Logging is not modelled.
\<close>

subsection \<open>Python values\<close>

text \<open>
  The values the session state and a tool response hold. The model restricts them to
  \<^verbatim>\<open>None\<close>, booleans, integers and strings.
\<close>

datatype pyval = PNone | PBool bool | PInt int | PStr string

text \<open>Python truthiness, as used by \<^verbatim>\<open>if x:\<close>, \<^verbatim>\<open>not x\<close> and \<^verbatim>\<open>all(...)\<close>.\<close>

fun truthy :: "pyval \<Rightarrow> bool" where
  "truthy PNone = False"
| "truthy (PBool b) = b"
| "truthy (PInt i) = (i \<noteq> 0)"
| "truthy (PStr s) = (s \<noteq> [])"

fun nat_digits :: "nat \<Rightarrow> string" where
  "nat_digits n =
     (if n < 10 then [''0123456789'' ! n]
      else nat_digits (n div 10) @ [''0123456789'' ! (n mod 10)])"

declare nat_digits.simps [simp del]

datatype py_error = KeyError | IndexError | ValueError

text \<open>
  CPython limits the conversion of an int to a decimal string: with the default setting
  (\<^verbatim>\<open>sys.get_int_max_str_digits()\<close>) an int of more than 4300 digits raises ValueError.
\<close>

definition int_max_str_digits :: nat where
  "int_max_str_digits = 4300"

text \<open>
  \<^verbatim>\<open>str(x)\<close>, which an f-string applies to the value it formats. An int has more than
  \<open>int_max_str_digits\<close> digits exactly when its absolute value reaches
  \<open>10 ^ int_max_str_digits\<close>.
\<close>

fun py_str :: "pyval \<Rightarrow> py_error + string" where
  "py_str PNone = Inr ''None''"
| "py_str (PBool b) = Inr (if b then ''True'' else ''False'')"
| "py_str (PInt i) =
     (if 10 ^ int_max_str_digits \<le> \<bar>i\<bar> then Inl ValueError
      else if i < 0 then Inr (''-'' @ nat_digits (nat (- i)))
      else Inr (nat_digits (nat i)))"
| "py_str (PStr s) = Inr s"

type_synonym pydict = "string \<rightharpoonup> pyval"

text \<open>\<^verbatim>\<open>d[k]\<close> on a dict raises KeyError on a missing key.\<close>

definition py_getitem :: "pydict \<Rightarrow> string \<Rightarrow> py_error + pyval" where
  "py_getitem d k = (case d k of None \<Rightarrow> Inl KeyError | Some v \<Rightarrow> Inr v)"

text \<open>
  Subscripting a list: an index from \<open>- len\<close> up to \<open>len - 1\<close> is accepted and taken
  modulo the length, any other index raises IndexError.
\<close>

definition py_index :: "'a list \<Rightarrow> int \<Rightarrow> py_error + 'a" where
  "py_index xs i =
     (if - int (length xs) \<le> i \<and> i < int (length xs)
      then Inr (xs ! nat (i mod int (length xs)))
      else Inl IndexError)"

text \<open>
  A dict whose iteration order matters (\<^verbatim>\<open>tools_called\<close>) is an association list in
  insertion order: assigning to a key that is present keeps its position, a new key goes
  to the end.
\<close>

type_synonym odict = "(string \<times> pyval) list"

fun dict_set :: "odict \<Rightarrow> string \<Rightarrow> pyval \<Rightarrow> odict" where
  "dict_set [] k v = [(k, v)]"
| "dict_set ((k', v') # kvs) k v =
     (if k' = k then (k, v) # kvs else (k', v') # dict_set kvs k v)"

definition dict_get :: "odict \<Rightarrow> string \<Rightarrow> py_error + pyval" where
  "dict_get d k = (case map_of d k of None \<Rightarrow> Inl KeyError | Some v \<Rightarrow> Inr v)"

subsection \<open>Session, events and the outgoing request\<close>

text \<open>
  The session state is a dict from string keys to values; \<^verbatim>\<open>state.get(k, False)\<close>
  yields \<^verbatim>\<open>False\<close> for a missing key.
\<close>

type_synonym state = "string \<rightharpoonup> pyval"

definition state_get :: "state \<Rightarrow> string \<Rightarrow> pyval" where
  "state_get st k = (case st k of None \<Rightarrow> PBool False | Some v \<Rightarrow> v)"

text \<open>
  The response attached to an event: \<^verbatim>\<open>isinstance(response, dict)\<close> separates a dict
  from any other value.
\<close>

datatype response = RDict pydict | RVal pyval

text \<open>
  The callbacks probe an event by attribute. \<open>function_call\<close> is the name of the tool
  call the event carries, \<open>None\<close> when \<^verbatim>\<open>hasattr(event, "function_call") and event.function_call\<close>
  is false; \<open>function_response\<close> is \<open>None\<close> when the event has no such attribute.
\<close>

record event =
  function_call :: "string option"
  function_response :: "response option"

text \<open>
  A part of a content of the request: its text, and the name of the tool call it carries
  (\<open>None\<close> when the attribute is absent or falsy).
\<close>

record part =
  text_of :: "string option"
  part_function_call :: "string option"

record content =
  role :: string
  parts :: "part list"

text \<open>\<^verbatim>\<open>types.Part.from_text(text=...)\<close>: a part that holds only text.\<close>

definition from_text :: "string \<Rightarrow> part" where
  "from_text t = \<lparr>text_of = Some t, part_function_call = None\<rparr>"

datatype llm_response = LlmResponse

text \<open>
  What a gate leaves behind: the value it returned or the exception it raised, the session
  state and the contents of the request as they are when it leaves.
\<close>

record gate_result =
  outcome :: "py_error + llm_response option"
  state_out :: state
  contents_out :: "content list"

definition return_none :: "state \<Rightarrow> content list \<Rightarrow> gate_result" where
  "return_none st contents = \<lparr>outcome = Inr None, state_out = st, contents_out = contents\<rparr>"

definition raise :: "py_error \<Rightarrow> state \<Rightarrow> content list \<Rightarrow> gate_result" where
  "raise err st contents = \<lparr>outcome = Inl err, state_out = st, contents_out = contents\<rparr>"

text \<open>
  The scan of the request for a tool call: the \<^verbatim>\<open>break\<close> leaves the inner loop only,
  the outer loop goes on over the remaining contents.
\<close>

fun scan_parts :: "part list \<Rightarrow> bool \<Rightarrow> bool" where
  "scan_parts [] h = h"
| "scan_parts (p # ps) h =
     (if part_function_call p \<noteq> None then True else scan_parts ps h)"

fun scan_contents :: "content list \<Rightarrow> bool \<Rightarrow> bool" where
  "scan_contents [] h = h"
| "scan_contents (c # cs) h = scan_contents cs (scan_parts (parts c) h)"

definition has_tool_calls :: "content list \<Rightarrow> bool" where
  "has_tool_calls contents = scan_contents contents False"

text \<open>
  \<^verbatim>\<open>llm_request.contents.insert(0, types.Content(role="user", parts=[Part.from_text(text)]))\<close>
\<close>

definition insert_instruction :: "string \<Rightarrow> content list \<Rightarrow> content list" where
  "insert_instruction instruction_text contents =
     \<lparr>role = ''user'', parts = [from_text instruction_text]\<rparr> # contents"

subsection \<open>The waiter: an unordered set of required tools\<close>

definition REQUIRED_WAITER_TOOLS :: "string set" where
  "REQUIRED_WAITER_TOOLS = {''get_customer_orders'', ''get_menu''}"

definition waiter_key :: "string \<Rightarrow> string" where
  "waiter_key tool_name = ''waiter_'' @ tool_name @ ''_called''"

definition track_waiter_tools :: "string \<Rightarrow> state \<Rightarrow> pydict option \<times> state" where
  "track_waiter_tools tool_name st =
     (if tool_name \<in> REQUIRED_WAITER_TOOLS
      then (None, st(waiter_key tool_name \<mapsto> PBool True))
      else (None, st))"

text \<open>The loop over \<^verbatim>\<open>session.events\<close> of the waiter gate.\<close>

fun waiter_scan :: "event list \<Rightarrow> odict \<times> state \<Rightarrow> odict \<times> state" where
  "waiter_scan [] (tools_called, st) = (tools_called, st)"
| "waiter_scan (e # es) (tools_called, st) =
     (case function_call e of
        None \<Rightarrow> waiter_scan es (tools_called, st)
      | Some tool_name \<Rightarrow>
          if tool_name \<in> REQUIRED_WAITER_TOOLS
          then waiter_scan es (dict_set tools_called tool_name (PBool True),
                               st(waiter_key tool_name \<mapsto> PBool True))
          else waiter_scan es (tools_called, st))"

definition waiter_instruction_text :: "string list \<Rightarrow> string" where
  "waiter_instruction_text missing_tools =
     ''CRITICAL: Before greeting or asking the customer anything, you MUST first call these tools:\<newline>''
     @ concat (map (\<lambda>tool. ''- '' @ tool @ ''\<newline>'') missing_tools)
     @ ''\<newline>Do NOT greet the customer or ask any questions until you have called ALL of these tools. ''
     @ ''Call them now automatically without asking the customer.''"

text \<open>
  \<open>order\<close> is the order in which Python iterates over the set
  \<^verbatim>\<open>REQUIRED_WAITER_TOOLS\<close>; it depends on the hash seed of the process, so the model
  takes it as a parameter.
\<close>

definition enforce_waiter_prerequisites ::
  "string list \<Rightarrow> string \<Rightarrow> event list \<Rightarrow> state \<Rightarrow> content list \<Rightarrow> gate_result" where
  "enforce_waiter_prerequisites order agent_name events st contents =
     (if agent_name \<noteq> ''waiter_agent'' then return_none st contents
      else
        let tools_called0 = map (\<lambda>tool_name. (tool_name, state_get st (waiter_key tool_name))) order;
            (tools_called, st1) = waiter_scan events (tools_called0, st)
        in if list_all (\<lambda>(tool, called). truthy called) tools_called then return_none st1 contents
           else if has_tool_calls contents then return_none st1 contents
           else
             let missing_tools = map fst (filter (\<lambda>(tool, called). \<not> truthy called) tools_called)
             in return_none st1 (insert_instruction (waiter_instruction_text missing_tools) contents))"

subsection \<open>The captain: an ordered list of workflow tools\<close>

definition CAPTAIN_WORKFLOW_TOOLS :: "string list" where
  "CAPTAIN_WORKFLOW_TOOLS =
     [''get_customer'', ''get_reservations'', ''check_table_availability'', ''assign_table'',
      ''transfer_to_agent'']"

definition captain_key :: "string \<Rightarrow> string" where
  "captain_key tool_name = ''captain_'' @ tool_name @ ''_called''"

definition track_captain_tools :: "string \<Rightarrow> state \<Rightarrow> pydict option \<times> state" where
  "track_captain_tools tool_name st =
     (if tool_name \<in> set CAPTAIN_WORKFLOW_TOOLS
      then (None, st(captain_key tool_name \<mapsto> PBool True))
      else (None, st))"

text \<open>The inner loop over the events for one tool; it stops at the first matching call.\<close>

fun captain_scan_events :: "string \<Rightarrow> event list \<Rightarrow> pyval \<times> state \<Rightarrow> pyval \<times> state" where
  "captain_scan_events tool_name [] (called, st) = (called, st)"
| "captain_scan_events tool_name (e # es) (called, st) =
     (case function_call e of
        None \<Rightarrow> captain_scan_events tool_name es (called, st)
      | Some n \<Rightarrow>
          if n = tool_name then (PBool True, st(captain_key tool_name \<mapsto> PBool True))
          else captain_scan_events tool_name es (called, st))"

text \<open>The outer loop over the workflow tools, filling \<^verbatim>\<open>tools_called\<close>.\<close>

fun captain_scan :: "string list \<Rightarrow> event list \<Rightarrow> odict \<times> state \<Rightarrow> odict \<times> state" where
  "captain_scan [] events (tools_called, st) = (tools_called, st)"
| "captain_scan (tool_name # rest) events (tools_called, st) =
     (let (called, st') =
            captain_scan_events tool_name events (state_get st (captain_key tool_name), st)
      in captain_scan rest events (dict_set tools_called tool_name called, st'))"

text \<open>The loop that finds the last completed step; it breaks at the first falsy entry.\<close>

fun last_completed :: "(nat \<times> string) list \<Rightarrow> odict \<Rightarrow> int \<Rightarrow> py_error + int" where
  "last_completed [] tools_called last_completed_index = Inr last_completed_index"
| "last_completed ((i, tool_name) # rest) tools_called last_completed_index =
     (case dict_get tools_called tool_name of
        Inl err \<Rightarrow> Inl err
      | Inr called \<Rightarrow>
          if truthy called then last_completed rest tools_called (int i)
          else Inr last_completed_index)"

text \<open>
  The loop over \<^verbatim>\<open>reversed(session.events)\<close> that looks for the customer id: it stops
  at the first event (from the end) that is a call of \<^verbatim>\<open>get_customer\<close>.
\<close>

fun find_customer_id :: "event list \<Rightarrow> py_error + pyval" where
  "find_customer_id [] = Inr PNone"
| "find_customer_id (e # es) =
     (case function_call e of
        None \<Rightarrow> find_customer_id es
      | Some n \<Rightarrow>
          if n = ''get_customer'' then
            (case function_response e of
               Some (RDict d) \<Rightarrow> if ''id'' \<in> dom d then py_getitem d ''id'' else Inr PNone
             | _ \<Rightarrow> Inr PNone)
          else find_customer_id es)"

text \<open>
  The two texts for \<^verbatim>\<open>get_reservations\<close>: the f-string around the formatted customer id,
  and the text without a literal.
\<close>

definition reservations_text_with_id :: "string \<Rightarrow> string" where
  "reservations_text_with_id formatted_id =
     ''CRITICAL: You MUST immediately call `get_reservations` with customer_id=''
     @ [CHR 0x27] @ formatted_id @ [CHR 0x27] @ ''. ''
     @ ''Do NOT ask the customer if they have a reservation - check automatically. ''
     @ ''Call the tool now.''"

definition reservations_text_without_id :: string where
  "reservations_text_without_id =
     ''CRITICAL: You MUST immediately call `get_reservations` with the customer_id from the previous get_customer call. ''
     @ ''Do NOT ask the customer if they have a reservation - check automatically. ''
     @ ''Call the tool now.''"

text \<open>Formatting the customer id into the f-string raises what \<^verbatim>\<open>str\<close> raises.\<close>

definition get_reservations_text :: "pyval \<Rightarrow> py_error + string" where
  "get_reservations_text customer_id =
     (if truthy customer_id then
        (case py_str customer_id of
           Inl err \<Rightarrow> Inl err
         | Inr formatted_id \<Rightarrow> Inr (reservations_text_with_id formatted_id))
      else Inr reservations_text_without_id)"

definition check_table_availability_text :: string where
  "check_table_availability_text =
     ''CRITICAL: You MUST immediately call `check_table_availability` to find available tables. ''
     @ ''Do NOT ask the customer - check automatically. Call the tool now.''"

definition assign_table_text :: string where
  "assign_table_text =
     ''CRITICAL: You MUST immediately call `assign_table` to seat the customer. ''
     @ ''Use one of the available tables from the previous check_table_availability result. ''
     @ ''Call the tool now.''"

definition transfer_to_agent_text :: string where
  "transfer_to_agent_text =
     ''CRITICAL: You MUST immediately call `transfer_to_agent` with agent_name=''
     @ [CHR 0x27] @ ''waiter_agent'' @ [CHR 0x27] @ ''. ''
     @ ''Include the customer_id and table_id in your message. Call the function now.''"

text \<open>
  The \<^verbatim>\<open>if/elif\<close> chain on \<^verbatim>\<open>next_tool\<close>: the text to inject, \<open>None\<close> in the
  final \<^verbatim>\<open>else\<close> branch, which returns without injecting, or the exception raised
  while the text is built.
\<close>

definition instruction_for :: "string \<Rightarrow> event list \<Rightarrow> py_error + string option" where
  "instruction_for next_tool events =
     (if next_tool = ''get_reservations'' then
        (case find_customer_id (rev events) of
           Inl err \<Rightarrow> Inl err
         | Inr customer_id \<Rightarrow>
             (case get_reservations_text customer_id of
                Inl err \<Rightarrow> Inl err
              | Inr instruction_text \<Rightarrow> Inr (Some instruction_text)))
      else if next_tool = ''check_table_availability'' then Inr (Some check_table_availability_text)
      else if next_tool = ''assign_table'' then Inr (Some assign_table_text)
      else if next_tool = ''transfer_to_agent'' then Inr (Some transfer_to_agent_text)
      else Inr None)"

definition enforce_captain_workflow ::
  "string \<Rightarrow> event list \<Rightarrow> state \<Rightarrow> content list \<Rightarrow> gate_result" where
  "enforce_captain_workflow agent_name events st contents =
     (if agent_name \<noteq> ''captain_agent'' then return_none st contents
      else
        let (tools_called, st1) = captain_scan CAPTAIN_WORKFLOW_TOOLS events ([], st)
        in case last_completed (enumerate 0 CAPTAIN_WORKFLOW_TOOLS) tools_called (- 1) of
             Inl err \<Rightarrow> raise err st1 contents
           | Inr last_completed_index \<Rightarrow>
               if last_completed_index = int (length CAPTAIN_WORKFLOW_TOOLS) - 1
               then return_none st1 contents
               else if has_tool_calls contents then return_none st1 contents
               else
                 let next_tool_index = last_completed_index + 1
                 in if next_tool_index \<ge> int (length CAPTAIN_WORKFLOW_TOOLS)
                    then return_none st1 contents
                    else
                      (case py_index CAPTAIN_WORKFLOW_TOOLS next_tool_index of
                         Inl err \<Rightarrow> raise err st1 contents
                       | Inr next_tool \<Rightarrow>
                           (case instruction_for next_tool events of
                              Inl err \<Rightarrow> raise err st1 contents
                            | Inr None \<Rightarrow> return_none st1 contents
                            | Inr (Some instruction_text) \<Rightarrow>
                                return_none st1 (insert_instruction instruction_text contents))))"

subsection \<open>A session as a sequence of callbacks\<close>

text \<open>
  The host runs the callbacks of a session one after the other on the same state:
  a tracker after each tool, a gate before each model turn.
\<close>

datatype callback =
    TrackWaiter string
  | TrackCaptain string
  | EnforceWaiter "string list" string "event list" "content list"
  | EnforceCaptain string "event list" "content list"

fun run_callback :: "callback \<Rightarrow> state \<Rightarrow> state" where
  "run_callback (TrackWaiter tool_name) st = snd (track_waiter_tools tool_name st)"
| "run_callback (TrackCaptain tool_name) st = snd (track_captain_tools tool_name st)"
| "run_callback (EnforceWaiter order agent_name events contents) st =
     state_out (enforce_waiter_prerequisites order agent_name events st contents)"
| "run_callback (EnforceCaptain agent_name events contents) st =
     state_out (enforce_captain_workflow agent_name events st contents)"

fun run_session :: "callback list \<Rightarrow> state \<Rightarrow> state" where
  "run_session [] st = st"
| "run_session (cb # cbs) st = run_session cbs (run_callback cb st)"

subsection \<open>Notions the properties are stated with\<close>

text \<open>A tool name appears in the event log as the call of some event.\<close>

definition called_in :: "event list \<Rightarrow> string \<Rightarrow> bool" where
  "called_in events tool_name = list_ex (\<lambda>e. function_call e = Some tool_name) events"

text \<open>A tool name appears as the call of an event that also carries a response.\<close>

definition paired_in :: "event list \<Rightarrow> string \<Rightarrow> bool" where
  "paired_in events tool_name =
     list_ex (\<lambda>e. function_call e = Some tool_name \<and> function_response e \<noteq> None) events"

text \<open>The value a gate holds for a step once it has looked at the state and the log.\<close>

definition captain_value :: "state \<Rightarrow> event list \<Rightarrow> string \<Rightarrow> pyval" where
  "captain_value st events t =
     (if called_in events t then PBool True else state_get st (captain_key t))"

definition captain_observed :: "state \<Rightarrow> event list \<Rightarrow> string \<Rightarrow> bool" where
  "captain_observed st events t \<longleftrightarrow> truthy (state_get st (captain_key t)) \<or> called_in events t"

definition waiter_value :: "state \<Rightarrow> event list \<Rightarrow> string \<Rightarrow> pyval" where
  "waiter_value st events t =
     (if called_in events t then PBool True else state_get st (waiter_key t))"

definition waiter_observed :: "state \<Rightarrow> event list \<Rightarrow> string \<Rightarrow> bool" where
  "waiter_observed st events t \<longleftrightarrow> truthy (state_get st (waiter_key t)) \<or> called_in events t"

text \<open>The state after the replay of the log: the flags of the steps called in it are set.\<close>

definition captain_replay :: "string list \<Rightarrow> event list \<Rightarrow> state \<Rightarrow> state" where
  "captain_replay ts events st =
     (\<lambda>k. if list_ex (\<lambda>t. called_in events t \<and> k = captain_key t) ts
          then Some (PBool True) else st k)"

definition waiter_replay :: "event list \<Rightarrow> state \<Rightarrow> state" where
  "waiter_replay events st =
     (\<lambda>k. if \<exists>t \<in> REQUIRED_WAITER_TOOLS. called_in events t \<and> k = waiter_key t
          then Some (PBool True) else st k)"

text \<open>The first index of the workflow whose step is not observed, scanning from the start.\<close>

definition next_index :: "state \<Rightarrow> event list \<Rightarrow> nat" where
  "next_index st events =
     length (takeWhile (captain_observed st events) CAPTAIN_WORKFLOW_TOOLS)"


text \<open>Some part of some content of the request carries a tool call.\<close>

definition carries_tool_call :: "content list \<Rightarrow> bool" where
  "carries_tool_call contents \<longleftrightarrow>
     (\<exists>c \<in> set contents. \<exists>p \<in> set (parts c). part_function_call p \<noteq> None)"

text \<open>The last event of the log that is a call of \<^verbatim>\<open>get_customer\<close>.\<close>

definition last_get_customer :: "event list \<Rightarrow> event option" where
  "last_get_customer events = find (\<lambda>e. function_call e = Some ''get_customer'') (rev events)"

text \<open>The id the response of an event carries, \<^verbatim>\<open>None\<close> when there is none.\<close>

definition response_id :: "event \<Rightarrow> pyval" where
  "response_id e =
     (case function_response e of
        Some (RDict d) \<Rightarrow> (case d ''id'' of None \<Rightarrow> PNone | Some v \<Rightarrow> v)
      | _ \<Rightarrow> PNone)"


text \<open>The customer id the captain gate takes from the log, \<^verbatim>\<open>None\<close> when it finds none.\<close>

definition customer_id_of :: "event list \<Rightarrow> pyval" where
  "customer_id_of events =
     (case last_get_customer events of None \<Rightarrow> PNone | Some e \<Rightarrow> response_id e)"

text \<open>A value that \<^verbatim>\<open>str\<close> converts without raising.\<close>

definition formattable :: "pyval \<Rightarrow> bool" where
  "formattable v = (case py_str v of Inl err \<Rightarrow> False | Inr formatted \<Rightarrow> True)"

section \<open>Properties\<close>

subsection \<open>Auxiliary facts\<close>

lemma captain_key_inj [simp]: "captain_key a = captain_key b \<longleftrightarrow> a = b"
  by (simp add: captain_key_def)
lemma waiter_key_inj [simp]: "waiter_key a = waiter_key b \<longleftrightarrow> a = b"
  by (simp add: waiter_key_def)

lemma map_of_dict_set: "map_of (dict_set d k v) = (map_of d)(k \<mapsto> v)"
  by (induction d) (auto simp: fun_eq_iff)

lemma captain_scan_events_eq:
  "captain_scan_events t events (c, st) =
     (if called_in events t then (PBool True, st(captain_key t \<mapsto> PBool True)) else (c, st))"
  by (induction events) (auto simp: called_in_def split: option.splits)

lemma truthy_captain_value: "truthy (captain_value st events t) = captain_observed st events t"
  by (auto simp: captain_value_def captain_observed_def)

lemma captain_value_upd:
  "called_in events a \<Longrightarrow>
   captain_value (st(captain_key a \<mapsto> PBool True)) events t = captain_value st events t"
  by (auto simp: captain_value_def state_get_def)

lemma captain_replay_Cons:
  "captain_replay (a # ts) events st =
     captain_replay ts events (if called_in events a then st(captain_key a \<mapsto> PBool True) else st)"
  by (auto simp: captain_replay_def fun_eq_iff)

lemma captain_replay_Nil: "captain_replay [] events st = st"
  by (simp add: captain_replay_def)

lemma captain_scan_Cons:
  "captain_scan (a # ts) events (tc, st) =
     captain_scan ts events
       (dict_set tc a (captain_value st events a),
        if called_in events a then st(captain_key a \<mapsto> PBool True) else st)"
  by (simp add: captain_scan_events_eq captain_value_def)

lemma captain_scan_state:
  "snd (captain_scan ts events (tc, st)) = captain_replay ts events st"
proof (induction ts arbitrary: tc st)
  case Nil
  show ?case by (simp add: captain_replay_Nil)
next
  case (Cons a ts)
  show ?case
    by (simp only: captain_scan_Cons Cons.IH captain_replay_Cons)
qed

lemma captain_scan_dict:
  "map_of (fst (captain_scan ts events (tc, st))) t =
     (if t \<in> set ts then Some (captain_value st events t) else map_of tc t)"
proof (induction ts arbitrary: tc st)
  case Nil
  show ?case by simp
next
  case (Cons a ts)
  have v: "captain_value (if called_in events a then st(captain_key a \<mapsto> PBool True) else st) events t
             = captain_value st events t"
    by (simp add: captain_value_upd)
  show ?case
    by (simp only: captain_scan_Cons Cons.IH v) (simp add: map_of_dict_set)
qed

lemma last_completed_eq:
  assumes "\<And>t. t \<in> set ts \<Longrightarrow> map_of tc t = Some (f t)"
  shows "last_completed (enumerate n ts) tc l =
           Inr (if takeWhile (\<lambda>t. truthy (f t)) ts = [] then l
                else int n + int (length (takeWhile (\<lambda>t. truthy (f t)) ts)) - 1)"
  using assms
proof (induction ts arbitrary: n l)
  case Nil
  show ?case by simp
next
  case (Cons a ts)
  have a: "dict_get tc a = Inr (f a)" using Cons.prems by (simp add: dict_get_def)
  have r: "\<And>t. t \<in> set ts \<Longrightarrow> map_of tc t = Some (f t)" using Cons.prems by simp
  show ?case
    by (simp add: a Cons.IH [OF r])
qed


lemma next_index_le: "next_index st events \<le> 5"
  using length_takeWhile_le [of "captain_observed st events" CAPTAIN_WORKFLOW_TOOLS]
  by (simp add: next_index_def CAPTAIN_WORKFLOW_TOOLS_def del: length_takeWhile_le)

lemma length_CWT: "length CAPTAIN_WORKFLOW_TOOLS = 5"
  by (simp add: CAPTAIN_WORKFLOW_TOOLS_def)

lemma captain_last_completed:
  "last_completed (enumerate 0 CAPTAIN_WORKFLOW_TOOLS)
     (fst (captain_scan CAPTAIN_WORKFLOW_TOOLS events ([], st))) (- 1)
   = Inr (int (next_index st events) - 1)"
proof -
  have m: "\<And>t. t \<in> set CAPTAIN_WORKFLOW_TOOLS \<Longrightarrow>
      map_of (fst (captain_scan CAPTAIN_WORKFLOW_TOOLS events ([], st))) t
        = Some (captain_value st events t)"
    by (simp add: captain_scan_dict)
  show ?thesis
    by (simp add: last_completed_eq [OF m] truthy_captain_value next_index_def)
qed

lemma py_index_nat: "n < length xs \<Longrightarrow> py_index xs (int n) = Inr (xs ! n)"
  by (simp add: py_index_def)

lemma enforce_captain_workflow_eq:
  "enforce_captain_workflow ''captain_agent'' events st contents =
     (let st1 = captain_replay CAPTAIN_WORKFLOW_TOOLS events st
      in if next_index st events = 5 \<or> has_tool_calls contents then return_none st1 contents
         else (case instruction_for (CAPTAIN_WORKFLOW_TOOLS ! next_index st events) events of
                 Inl err \<Rightarrow> raise err st1 contents
               | Inr None \<Rightarrow> return_none st1 contents
               | Inr (Some instruction_text) \<Rightarrow>
                   return_none st1 (insert_instruction instruction_text contents)))"
proof -
  obtain tc st1 where sc: "captain_scan CAPTAIN_WORKFLOW_TOOLS events ([], st) = (tc, st1)"
    by (cases "captain_scan CAPTAIN_WORKFLOW_TOOLS events ([], st)")
  have st1: "st1 = captain_replay CAPTAIN_WORKFLOW_TOOLS events st"
    using captain_scan_state [of CAPTAIN_WORKFLOW_TOOLS events "[]" st] sc by simp
  have lc: "last_completed (enumerate 0 CAPTAIN_WORKFLOW_TOOLS) tc (- 1)
              = Inr (int (next_index st events) - 1)"
    using captain_last_completed [of events st] sc by simp
  show ?thesis
  proof (cases "next_index st events = 5")
    case True
    then show ?thesis
      by (simp add: enforce_captain_workflow_def sc lc st1 length_CWT)
  next
    case False
    then have lt: "next_index st events < length CAPTAIN_WORKFLOW_TOOLS"
      using next_index_le [of st events] by (simp add: length_CWT)
    have ix: "py_index CAPTAIN_WORKFLOW_TOOLS (int (next_index st events))
                = Inr (CAPTAIN_WORKFLOW_TOOLS ! next_index st events)"
      by (rule py_index_nat [OF lt])
    have ge: "\<not> 5 \<le> next_index st events" using lt by (simp add: length_CWT)
    show ?thesis
      using False
      by (simp add: enforce_captain_workflow_def sc lc st1 length_CWT ix ge Let_def)
  qed
qed


lemma truthy_waiter_value: "truthy (waiter_value st events t) = waiter_observed st events t"
  by (auto simp: waiter_value_def waiter_observed_def)

lemma called_in_Nil: "called_in [] t = False"
  by (simp add: called_in_def)

lemma called_in_Cons: "called_in (e # es) t \<longleftrightarrow> function_call e = Some t \<or> called_in es t"
  by (simp add: called_in_def)

lemma waiter_replay_Nil: "waiter_replay [] st = st"
  by (simp add: waiter_replay_def called_in_Nil)

lemma waiter_replay_skip:
  "function_call e = None \<or> (\<exists>n. function_call e = Some n \<and> n \<notin> REQUIRED_WAITER_TOOLS) \<Longrightarrow>
   waiter_replay (e # es) st = waiter_replay es st"
  by (auto simp: waiter_replay_def called_in_Cons fun_eq_iff)

lemma waiter_replay_hit:
  "function_call e = Some n \<Longrightarrow> n \<in> REQUIRED_WAITER_TOOLS \<Longrightarrow>
   waiter_replay (e # es) st = waiter_replay es (st(waiter_key n \<mapsto> PBool True))"
  by (auto simp: waiter_replay_def called_in_Cons fun_eq_iff)

lemma waiter_scan_state: "snd (waiter_scan events (tc, st)) = waiter_replay events st"
proof (induction events arbitrary: tc st)
  case Nil
  show ?case by (simp add: waiter_replay_Nil)
next
  case (Cons e es)
  show ?case
  proof (cases "function_call e")
    case None
    then show ?thesis by (simp add: waiter_replay_skip Cons.IH)
  next
    case (Some n)
    show ?thesis
    proof (cases "n \<in> REQUIRED_WAITER_TOOLS")
      case True
      show ?thesis
        using Some True
        by (simp only: waiter_scan.simps option.case if_True waiter_replay_hit [OF Some True] Cons.IH)
    next
      case False
      then show ?thesis using Some by (simp add: waiter_replay_skip Cons.IH)
    qed
  qed
qed

lemma dict_set_map:
  "distinct ks \<Longrightarrow> k \<in> set ks \<Longrightarrow>
   dict_set (map (\<lambda>t. (t, f t)) ks) k v = map (\<lambda>t. (t, (f(k := v)) t)) ks"
proof (induction ks)
  case Nil
  then show ?case by simp
next
  case (Cons a ks)
  show ?case
  proof (cases "a = k")
    case True
    then have "k \<notin> set ks" using Cons.prems by simp
    then have "map (\<lambda>t. (t, f t)) ks = map (\<lambda>t. (t, (f(k := v)) t)) ks"
      by (intro map_cong) auto
    then show ?thesis using True by simp
  next
    case False
    then show ?thesis using Cons by simp
  qed
qed

lemma waiter_scan_dict:
  assumes "distinct ks" "REQUIRED_WAITER_TOOLS \<subseteq> set ks"
  shows "fst (waiter_scan events (map (\<lambda>t. (t, f t)) ks, st)) =
           map (\<lambda>t. (t, if t \<in> REQUIRED_WAITER_TOOLS \<and> called_in events t then PBool True else f t)) ks"
proof (induction events arbitrary: f st)
  case Nil
  show ?case by (simp add: called_in_Nil)
next
  case (Cons e es)
  show ?case
  proof (cases "function_call e")
    case None
    then show ?thesis by (simp add: Cons.IH called_in_Cons)
  next
    case (Some n)
    show ?thesis
    proof (cases "n \<in> REQUIRED_WAITER_TOOLS")
      case True
      then have "n \<in> set ks" using assms(2) by auto
      then have "dict_set (map (\<lambda>t. (t, f t)) ks) n (PBool True)
                   = map (\<lambda>t. (t, (f(n := PBool True)) t)) ks"
        using assms(1) by (simp add: dict_set_map)
      then show ?thesis
        using Some True by (auto simp add: Cons.IH called_in_Cons)
    next
      case False
      then have "\<And>t. t \<in> REQUIRED_WAITER_TOOLS \<Longrightarrow> Some n \<noteq> Some t" by auto
      then show ?thesis
        using Some False by (auto simp add: Cons.IH called_in_Cons)
    qed
  qed
qed

lemma enforce_waiter_prerequisites_eq:
  assumes "distinct order" "set order = REQUIRED_WAITER_TOOLS"
  shows "enforce_waiter_prerequisites order ''waiter_agent'' events st contents =
     (let st1 = waiter_replay events st
      in if (\<forall>t \<in> REQUIRED_WAITER_TOOLS. waiter_observed st events t) \<or> has_tool_calls contents
         then return_none st1 contents
         else return_none st1
                (insert_instruction
                   (waiter_instruction_text (filter (\<lambda>t. \<not> waiter_observed st events t) order))
                   contents))"
proof -
  let ?init = "map (\<lambda>t. (t, state_get st (waiter_key t))) order"
  let ?final = "map (\<lambda>t. (t, waiter_value st events t)) order"
  have sub: "REQUIRED_WAITER_TOOLS \<subseteq> set order" using assms(2) by simp
  have e1: "fst (waiter_scan events (?init, st)) =
              map (\<lambda>t. (t, if t \<in> REQUIRED_WAITER_TOOLS \<and> called_in events t then PBool True
                            else state_get st (waiter_key t))) order"
    by (rule waiter_scan_dict [OF assms(1) sub])
  have e2: "map (\<lambda>t. (t, if t \<in> REQUIRED_WAITER_TOOLS \<and> called_in events t then PBool True
                           else state_get st (waiter_key t))) order = ?final"
    by (intro map_cong) (auto simp: waiter_value_def assms(2))
  have "fst (waiter_scan events (?init, st)) = ?final"
    by (rule trans [OF e1 e2])
  moreover have "snd (waiter_scan events (?init, st)) = waiter_replay events st"
    by (rule waiter_scan_state)
  ultimately have sc: "waiter_scan events (?init, st) = (?final, waiter_replay events st)"
    by (metis prod.collapse)
  have al: "list_all (\<lambda>(tool, called). truthy called) ?final
              \<longleftrightarrow> (\<forall>t \<in> REQUIRED_WAITER_TOOLS. waiter_observed st events t)"
    by (simp add: list_all_iff truthy_waiter_value assms(2))
  have mi: "map fst (filter (\<lambda>(tool, called). \<not> truthy called) ?final)
              = filter (\<lambda>t. \<not> waiter_observed st events t) order"
    by (induction order) (simp_all add: truthy_waiter_value)
  show ?thesis
    by (simp add: enforce_waiter_prerequisites_def sc al mi Let_def)
qed

lemma scan_parts_iff: "scan_parts ps h \<longleftrightarrow> h \<or> (\<exists>p \<in> set ps. part_function_call p \<noteq> None)"
  by (induction ps) auto

lemma scan_contents_iff:
  "scan_contents cs h \<longleftrightarrow> h \<or> (\<exists>c \<in> set cs. \<exists>p \<in> set (parts c). part_function_call p \<noteq> None)"
  by (induction cs arbitrary: h) (auto simp: scan_parts_iff)

lemma has_tool_calls_iff: "has_tool_calls contents \<longleftrightarrow> carries_tool_call contents"
  by (simp add: has_tool_calls_def carries_tool_call_def scan_contents_iff)

lemma captain_state_out:
  "state_out (enforce_captain_workflow a events st contents) =
     (if a = ''captain_agent'' then captain_replay CAPTAIN_WORKFLOW_TOOLS events st else st)"
proof (cases "a = ''captain_agent''")
  case True
  then show ?thesis
    by (simp add: enforce_captain_workflow_eq Let_def return_none_def raise_def
             split: sum.splits option.splits)
next
  case False
  then show ?thesis by (simp add: enforce_captain_workflow_def return_none_def)
qed

lemma waiter_state_out:
  "state_out (enforce_waiter_prerequisites order a events st contents) =
     (if a = ''waiter_agent'' then waiter_replay events st else st)"
proof (cases "a = ''waiter_agent''")
  case True
  obtain tc st1 where sc:
    "waiter_scan events (map (\<lambda>tool_name. (tool_name, state_get st (waiter_key tool_name))) order, st) = (tc, st1)"
    by (cases "waiter_scan events (map (\<lambda>tool_name. (tool_name, state_get st (waiter_key tool_name))) order, st)")
  have "st1 = waiter_replay events st"
    using waiter_scan_state [of events "map (\<lambda>tool_name. (tool_name, state_get st (waiter_key tool_name))) order" st] sc
    by simp
  then show ?thesis
    using True by (simp add: enforce_waiter_prerequisites_def sc return_none_def Let_def)
next
  case False
  then show ?thesis by (simp add: enforce_waiter_prerequisites_def return_none_def)
qed

lemma waiter_outcome: "outcome (enforce_waiter_prerequisites order a events st contents) = Inr None"
  by (simp add: enforce_waiter_prerequisites_def return_none_def Let_def split: prod.splits)

lemma find_customer_id_total: "\<exists>v. find_customer_id es = Inr v"
  by (induction es) (auto simp: py_getitem_def split: option.splits response.splits)

lemma py_str_error: "py_str v = Inl err \<Longrightarrow> err = ValueError"
  by (cases v) (auto split: if_splits)

lemma get_reservations_text_error: "get_reservations_text v = Inl err \<Longrightarrow> err = ValueError"
  by (auto simp: get_reservations_text_def py_str_error split: if_splits sum.splits)

lemma instruction_for_error: "instruction_for t events = Inl err \<Longrightarrow> err = ValueError"
proof -
  assume e: "instruction_for t events = Inl err"
  obtain v where v: "find_customer_id (rev events) = Inr v"
    using find_customer_id_total by blast
  show ?thesis
  proof (cases "get_reservations_text v")
    case (Inl err')
    then show ?thesis
      using e get_reservations_text_error [OF Inl]
      by (simp add: instruction_for_def v split: if_splits)
  next
    case (Inr r)
    then show ?thesis
      using e by (simp add: instruction_for_def v split: if_splits)
  qed
qed

lemma captain_outcome_pass:
  "a \<noteq> ''captain_agent'' \<or> next_index st events = 5 \<or> has_tool_calls contents \<Longrightarrow>
   outcome (enforce_captain_workflow a events st contents) = Inr None"
proof (cases "a = ''captain_agent''")
  case True
  assume "a \<noteq> ''captain_agent'' \<or> next_index st events = 5 \<or> has_tool_calls contents"
  then have "next_index st events = 5 \<or> has_tool_calls contents" using True by simp
  then show ?thesis
    using True by (simp add: enforce_captain_workflow_eq Let_def return_none_def)
next
  case False
  then show ?thesis by (simp add: enforce_captain_workflow_def return_none_def)
qed


lemma replay_mono_captain:
  "captain_replay ts events st k = st k \<or> captain_replay ts events st k = Some (PBool True)"
  by (simp add: captain_replay_def)

lemma replay_mono_waiter:
  "waiter_replay events st k = st k \<or> waiter_replay events st k = Some (PBool True)"
  by (simp add: waiter_replay_def)

lemma run_callback_mono: "run_callback cb st k = st k \<or> run_callback cb st k = Some (PBool True)"
proof (cases cb)
  case (TrackWaiter n)
  then show ?thesis by (simp add: track_waiter_tools_def)
next
  case (TrackCaptain n)
  then show ?thesis by (simp add: track_captain_tools_def)
next
  case (EnforceWaiter order a events contents)
  then show ?thesis using replay_mono_waiter [of events st k] by (simp add: waiter_state_out)
next
  case (EnforceCaptain a events contents)
  then show ?thesis
    using replay_mono_captain [of CAPTAIN_WORKFLOW_TOOLS events st k]
    by (simp add: captain_state_out)
qed

lemma run_session_mono: "run_session cbs st k = st k \<or> run_session cbs st k = Some (PBool True)"
proof (induction cbs arbitrary: st)
  case Nil
  show ?case by simp
next
  case (Cons cb cbs)
  show ?case
    using Cons.IH [of "run_callback cb st"] run_callback_mono [of cb st k] by auto
qed

lemma run_session_truthy:
  "truthy (state_get st k) \<Longrightarrow> truthy (state_get (run_session cbs st) k)"
  using run_session_mono [of cbs st k] by (auto simp: state_get_def)

subsection \<open>The trackers\<close>

text \<open>
  Claim C10. For a tool whose name is not in the configured step set
  (\<^verbatim>\<open>REQUIRED_WAITER_TOOLS\<close> for \<^verbatim>\<open>track_waiter_tools\<close>, \<^verbatim>\<open>CAPTAIN_WORKFLOW_TOOLS\<close>
  for \<^verbatim>\<open>track_captain_tools\<close>) the tracker leaves the state map as it is, and both
  trackers return \<^verbatim>\<open>None\<close> on every input.
\<close>

theorem trackers_ignore_other_tools:
  "(tool_name \<notin> REQUIRED_WAITER_TOOLS \<longrightarrow> snd (track_waiter_tools tool_name st) = st)
   \<and> (tool_name \<notin> set CAPTAIN_WORKFLOW_TOOLS \<longrightarrow> snd (track_captain_tools tool_name st) = st)
   \<and> fst (track_waiter_tools tool_name st) = None
   \<and> fst (track_captain_tools tool_name st) = None"
  by (simp add: track_waiter_tools_def track_captain_tools_def)

theorem trackers_ignore_other_tools_witness:
  "''some_other_tool'' \<notin> REQUIRED_WAITER_TOOLS
   \<and> ''some_other_tool'' \<notin> set CAPTAIN_WORKFLOW_TOOLS
   \<and> snd (track_waiter_tools ''some_other_tool'' Map.empty) = Map.empty
   \<and> snd (track_captain_tools ''some_other_tool'' Map.empty) = Map.empty
   \<and> fst (track_waiter_tools ''some_other_tool'' Map.empty) = None
   \<and> fst (track_captain_tools ''some_other_tool'' Map.empty) = None"
  using trackers_ignore_other_tools [of "''some_other_tool''" Map.empty]
  by (simp add: REQUIRED_WAITER_TOOLS_def CAPTAIN_WORKFLOW_TOOLS_def)

lemmas gate_eval =
  enforce_captain_workflow_def enforce_waiter_prerequisites_def CAPTAIN_WORKFLOW_TOOLS_def
  REQUIRED_WAITER_TOOLS_def captain_key_def waiter_key_def state_get_def dict_get_def
  py_index_def py_getitem_def has_tool_calls_def return_none_def raise_def
  insert_instruction_def instruction_for_def get_reservations_text_def Let_def

lemma waiter_contents_out:
  "contents_out (enforce_waiter_prerequisites order a events st contents) = contents
   \<or> (\<exists>t. contents_out (enforce_waiter_prerequisites order a events st contents)
            = insert_instruction t contents)"
  by (auto simp: enforce_waiter_prerequisites_def return_none_def Let_def split: prod.splits)

lemma captain_contents_out:
  "contents_out (enforce_captain_workflow a events st contents) = contents
   \<or> (\<exists>t. contents_out (enforce_captain_workflow a events st contents)
            = insert_instruction t contents)"
proof (cases "a = ''captain_agent''")
  case True
  then show ?thesis
    by (auto simp: enforce_captain_workflow_eq Let_def return_none_def raise_def
             split: sum.splits option.splits)
next
  case False
  then show ?thesis by (simp add: enforce_captain_workflow_def return_none_def)
qed

subsection \<open>Both gates: other agents, tool calls in the request, monotonic flags, injection\<close>

text \<open>
  Claim C8. For an agent other than the one a gate is configured for
  (\<^verbatim>\<open>waiter_agent\<close> for \<^verbatim>\<open>enforce_waiter_prerequisites\<close>, \<^verbatim>\<open>captain_agent\<close> for
  \<^verbatim>\<open>enforce_captain_workflow\<close>) the gate returns \<^verbatim>\<open>None\<close> and leaves the session state
  and the request as they are, whatever the event log, the state and the request hold:
  the result does not depend on them.
\<close>
theorem gates_ignore_other_agents:
  "(agent_name \<noteq> ''waiter_agent'' \<longrightarrow>
      enforce_waiter_prerequisites order agent_name events st contents
        = \<lparr>outcome = Inr None, state_out = st, contents_out = contents\<rparr>)
   \<and> (agent_name \<noteq> ''captain_agent'' \<longrightarrow>
      enforce_captain_workflow agent_name events st contents
        = \<lparr>outcome = Inr None, state_out = st, contents_out = contents\<rparr>)"
  by (simp add: enforce_waiter_prerequisites_def enforce_captain_workflow_def return_none_def)

theorem gates_ignore_other_agents_witness:
  "''chef_agent'' \<noteq> ''waiter_agent'' \<and> ''chef_agent'' \<noteq> ''captain_agent''
   \<and> enforce_waiter_prerequisites [''get_menu'', ''get_customer_orders''] ''chef_agent''
        [\<lparr>function_call = Some ''get_menu'', function_response = None\<rparr>] Map.empty []
        = \<lparr>outcome = Inr None, state_out = Map.empty, contents_out = []\<rparr>
   \<and> enforce_captain_workflow ''chef_agent''
        [\<lparr>function_call = Some ''get_menu'', function_response = None\<rparr>] Map.empty []
        = \<lparr>outcome = Inr None, state_out = Map.empty, contents_out = []\<rparr>"
  using gates_ignore_other_agents [of "''chef_agent''" "[''get_menu'', ''get_customer_orders'']"
      "[\<lparr>function_call = Some ''get_menu'', function_response = None\<rparr>]" Map.empty "[]"]
  by simp

text \<open>
  Claim C5. If some part of some content of the pending request carries a tool call, both
  gates return \<^verbatim>\<open>None\<close> and leave the contents of the request unchanged, for every
  session state and event log, also when required steps are unmet.
\<close>
theorem gates_pass_on_tool_call:
  assumes "carries_tool_call contents"
  shows "outcome (enforce_waiter_prerequisites order agent_name events st contents) = Inr None
   \<and> contents_out (enforce_waiter_prerequisites order agent_name events st contents) = contents
   \<and> outcome (enforce_captain_workflow agent_name events st contents) = Inr None
   \<and> contents_out (enforce_captain_workflow agent_name events st contents) = contents"
proof -
  have h: "has_tool_calls contents" using assms by (simp add: has_tool_calls_iff)
  have w: "contents_out (enforce_waiter_prerequisites order agent_name events st contents) = contents"
    by (simp add: enforce_waiter_prerequisites_def h return_none_def Let_def split: prod.splits)
  have c: "contents_out (enforce_captain_workflow agent_name events st contents) = contents"
  proof (cases "agent_name = ''captain_agent''")
    case True
    then show ?thesis by (simp add: enforce_captain_workflow_eq h return_none_def)
  next
    case False
    then show ?thesis by (simp add: enforce_captain_workflow_def return_none_def)
  qed
  show ?thesis by (simp add: w c waiter_outcome captain_outcome_pass h)
qed

theorem gates_pass_on_tool_call_witness:
  "carries_tool_call [\<lparr>role = ''model'', parts = [\<lparr>text_of = None, part_function_call = Some ''get_menu''\<rparr>]\<rparr>]
   \<and> \<not> waiter_observed Map.empty [] ''get_menu''
   \<and> \<not> captain_observed Map.empty [] ''get_customer''
   \<and> contents_out (enforce_waiter_prerequisites [''get_menu'', ''get_customer_orders''] ''waiter_agent'' [] Map.empty
        [\<lparr>role = ''model'', parts = [\<lparr>text_of = None, part_function_call = Some ''get_menu''\<rparr>]\<rparr>])
      = [\<lparr>role = ''model'', parts = [\<lparr>text_of = None, part_function_call = Some ''get_menu''\<rparr>]\<rparr>]
   \<and> contents_out (enforce_captain_workflow ''captain_agent'' [] Map.empty
        [\<lparr>role = ''model'', parts = [\<lparr>text_of = None, part_function_call = Some ''get_menu''\<rparr>]\<rparr>])
      = [\<lparr>role = ''model'', parts = [\<lparr>text_of = None, part_function_call = Some ''get_menu''\<rparr>]\<rparr>]"
proof -
  have h: "carries_tool_call [\<lparr>role = ''model'', parts = [\<lparr>text_of = None, part_function_call = Some ''get_menu''\<rparr>]\<rparr>]"
    by (simp add: carries_tool_call_def)
  show ?thesis
    using h gates_pass_on_tool_call [OF h, of "[''get_menu'', ''get_customer_orders'']" "''waiter_agent''" "[]" Map.empty]
          gates_pass_on_tool_call [OF h, of "[''get_menu'', ''get_customer_orders'']" "''captain_agent''" "[]" Map.empty]
    by (simp add: waiter_observed_def captain_observed_def called_in_def state_get_def)
qed

text \<open>
  Claim C6. Step flags are monotonic: over any sequence of tracker callbacks and gate
  evaluations of a session a flag that is \<^verbatim>\<open>True\<close> (or truthy) stays so; and calling a
  tracker a second time for the same tool leaves the state exactly as the first call
  left it.
\<close>
theorem step_flags_monotonic:
  "(st k = Some (PBool True) \<longrightarrow> run_session cbs st k = Some (PBool True))
   \<and> (truthy (state_get st k) \<longrightarrow> truthy (state_get (run_session cbs st) k))
   \<and> snd (track_waiter_tools tool_name (snd (track_waiter_tools tool_name st)))
        = snd (track_waiter_tools tool_name st)
   \<and> snd (track_captain_tools tool_name (snd (track_captain_tools tool_name st)))
        = snd (track_captain_tools tool_name st)"
proof -
  have a: "st k = Some (PBool True) \<longrightarrow> run_session cbs st k = Some (PBool True)"
    using run_session_mono [of cbs st k] by auto
  have b: "truthy (state_get st k) \<longrightarrow> truthy (state_get (run_session cbs st) k)"
    by (simp add: run_session_truthy)
  show ?thesis
    by (simp add: a b track_waiter_tools_def track_captain_tools_def)
qed

theorem step_flags_monotonic_witness:
  "snd (track_captain_tools ''get_customer'' Map.empty) (captain_key ''get_customer'') = Some (PBool True)
   \<and> run_session
        [TrackCaptain ''get_customer'',
         EnforceCaptain ''captain_agent'' [\<lparr>function_call = Some ''get_reservations'', function_response = None\<rparr>] [],
         TrackWaiter ''get_menu'',
         EnforceWaiter [''get_menu'', ''get_customer_orders''] ''waiter_agent'' [] []]
        (snd (track_captain_tools ''get_customer'' Map.empty)) (captain_key ''get_customer'') = Some (PBool True)
   \<and> truthy (state_get (snd (track_captain_tools ''get_customer'' Map.empty)) (captain_key ''get_customer''))
   \<and> snd (track_captain_tools ''get_customer'' (snd (track_captain_tools ''get_customer'' Map.empty)))
        = snd (track_captain_tools ''get_customer'' Map.empty)"
  using step_flags_monotonic [of "snd (track_captain_tools ''get_customer'' Map.empty)" "captain_key ''get_customer''"
        "[TrackCaptain ''get_customer'',
         EnforceCaptain ''captain_agent'' [\<lparr>function_call = Some ''get_reservations'', function_response = None\<rparr>] [],
         TrackWaiter ''get_menu'',
         EnforceWaiter [''get_menu'', ''get_customer_orders''] ''waiter_agent'' [] []]" "''get_customer''"]
  by (simp add: track_captain_tools_def CAPTAIN_WORKFLOW_TOOLS_def state_get_def)

text \<open>
  Claim C9. When a gate changes the request, it puts exactly one block, a user content
  with a single text part, at position 0 in front of the unchanged contents. The state the
  gate leaves is the one the replay of the log produced, the same whether or not a
  directive is injected: the injection writes to the request only.
\<close>
theorem injection_prepends_one_block:
  "(contents_out (enforce_waiter_prerequisites order a events st contents) \<noteq> contents \<longrightarrow>
      (\<exists>t. contents_out (enforce_waiter_prerequisites order a events st contents)
             = \<lparr>role = ''user'', parts = [from_text t]\<rparr> # contents))
   \<and> (contents_out (enforce_captain_workflow a events st contents) \<noteq> contents \<longrightarrow>
      (\<exists>t. contents_out (enforce_captain_workflow a events st contents)
             = \<lparr>role = ''user'', parts = [from_text t]\<rparr> # contents))
   \<and> state_out (enforce_waiter_prerequisites order a events st contents)
        = (if a = ''waiter_agent'' then waiter_replay events st else st)
   \<and> state_out (enforce_captain_workflow a events st contents)
        = (if a = ''captain_agent'' then captain_replay CAPTAIN_WORKFLOW_TOOLS events st else st)
   \<and> state_out (enforce_waiter_prerequisites order a events st contents)
        = state_out (enforce_waiter_prerequisites order a events st other_contents)
   \<and> state_out (enforce_captain_workflow a events st contents)
        = state_out (enforce_captain_workflow a events st other_contents)"
  using waiter_contents_out [of order a events st contents]
        captain_contents_out [of a events st contents]
  by (auto simp: insert_instruction_def waiter_state_out captain_state_out)

theorem injection_prepends_one_block_witness:
  "contents_out (enforce_waiter_prerequisites [''get_menu'', ''get_customer_orders''] ''waiter_agent'' [] Map.empty
      [\<lparr>role = ''user'', parts = []\<rparr>]) \<noteq> [\<lparr>role = ''user'', parts = []\<rparr>]
   \<and> contents_out (enforce_captain_workflow ''captain_agent''
        [\<lparr>function_call = Some ''get_customer'', function_response = None\<rparr>] Map.empty
        [\<lparr>role = ''user'', parts = []\<rparr>]) \<noteq> [\<lparr>role = ''user'', parts = []\<rparr>]
   \<and> (\<exists>t. contents_out (enforce_waiter_prerequisites [''get_menu'', ''get_customer_orders''] ''waiter_agent'' [] Map.empty
          [\<lparr>role = ''user'', parts = []\<rparr>])
        = [\<lparr>role = ''user'', parts = [from_text t]\<rparr>, \<lparr>role = ''user'', parts = []\<rparr>])
   \<and> (\<exists>t. contents_out (enforce_captain_workflow ''captain_agent''
          [\<lparr>function_call = Some ''get_customer'', function_response = None\<rparr>] Map.empty
          [\<lparr>role = ''user'', parts = []\<rparr>])
        = [\<lparr>role = ''user'', parts = [from_text t]\<rparr>, \<lparr>role = ''user'', parts = []\<rparr>])"
proof -
  have w: "contents_out (enforce_waiter_prerequisites [''get_menu'', ''get_customer_orders''] ''waiter_agent'' [] Map.empty
      [\<lparr>role = ''user'', parts = []\<rparr>]) \<noteq> [\<lparr>role = ''user'', parts = []\<rparr>]"
    by (simp add: gate_eval)
  have c: "contents_out (enforce_captain_workflow ''captain_agent''
        [\<lparr>function_call = Some ''get_customer'', function_response = None\<rparr>] Map.empty
        [\<lparr>role = ''user'', parts = []\<rparr>]) \<noteq> [\<lparr>role = ''user'', parts = []\<rparr>]"
    by (simp add: gate_eval)
  show ?thesis
    using w c injection_prepends_one_block [of "[''get_menu'', ''get_customer_orders'']" "''waiter_agent''" "[]" Map.empty
        "[\<lparr>role = ''user'', parts = []\<rparr>]"]
      injection_prepends_one_block [of _ "''captain_agent''"
        "[\<lparr>function_call = Some ''get_customer'', function_response = None\<rparr>]" Map.empty
        "[\<lparr>role = ''user'', parts = []\<rparr>]"]
    by blast
qed

subsection \<open>The waiter gate\<close>








subsection \<open>The replay of the event log\<close>

lemma next_index_all: "(\<forall>t \<in> set CAPTAIN_WORKFLOW_TOOLS. captain_observed st events t) \<Longrightarrow> next_index st events = 5"
  by (simp add: next_index_def takeWhile_eq_all_conv [THEN iffD2] length_CWT)

lemma captain_replay_apply:
  "captain_replay ts events st k =
     (if \<exists>t \<in> set ts. called_in events t \<and> k = captain_key t then Some (PBool True) else st k)"
  by (simp add: captain_replay_def list_ex_iff)

text \<open>
  Claim C3, as the code has it. On every evaluation for its agent a gate sets to
  \<^verbatim>\<open>True\<close> the flag of exactly those registered steps whose name is the call of some
  event of the log, whether or not that event carries a response, and leaves every other
  key of the state as it is, whatever the state held before. So a gate run on a log that
  holds a call of every required step passes even when the state starts empty.
\<close>
theorem gates_replay_event_log:
  "state_out (enforce_waiter_prerequisites order ''waiter_agent'' events st contents) k
     = (if \<exists>t \<in> REQUIRED_WAITER_TOOLS. called_in events t \<and> k = waiter_key t
        then Some (PBool True) else st k)
   \<and> state_out (enforce_captain_workflow ''captain_agent'' events st contents) k
     = (if \<exists>t \<in> set CAPTAIN_WORKFLOW_TOOLS. called_in events t \<and> k = captain_key t
        then Some (PBool True) else st k)
   \<and> (distinct order \<and> set order = REQUIRED_WAITER_TOOLS
        \<and> (\<forall>t \<in> REQUIRED_WAITER_TOOLS. called_in events t) \<longrightarrow>
       contents_out (enforce_waiter_prerequisites order ''waiter_agent'' events Map.empty contents)
         = contents)
   \<and> ((\<forall>t \<in> set CAPTAIN_WORKFLOW_TOOLS. called_in events t) \<longrightarrow>
       contents_out (enforce_captain_workflow ''captain_agent'' events Map.empty contents) = contents)"
proof -
  have a: "state_out (enforce_waiter_prerequisites order ''waiter_agent'' events st contents) k
     = (if \<exists>t \<in> REQUIRED_WAITER_TOOLS. called_in events t \<and> k = waiter_key t
        then Some (PBool True) else st k)"
    by (simp add: waiter_state_out waiter_replay_def)
  have b: "state_out (enforce_captain_workflow ''captain_agent'' events st contents) k
     = (if \<exists>t \<in> set CAPTAIN_WORKFLOW_TOOLS. called_in events t \<and> k = captain_key t
        then Some (PBool True) else st k)"
    by (simp add: captain_state_out captain_replay_apply)
  have c: "distinct order \<and> set order = REQUIRED_WAITER_TOOLS
        \<and> (\<forall>t \<in> REQUIRED_WAITER_TOOLS. called_in events t) \<longrightarrow>
       contents_out (enforce_waiter_prerequisites order ''waiter_agent'' events Map.empty contents)
         = contents"
    by (auto simp: enforce_waiter_prerequisites_eq Let_def return_none_def waiter_observed_def)
  have d: "(\<forall>t \<in> set CAPTAIN_WORKFLOW_TOOLS. called_in events t) \<longrightarrow>
       contents_out (enforce_captain_workflow ''captain_agent'' events Map.empty contents) = contents"
  proof
    assume "\<forall>t \<in> set CAPTAIN_WORKFLOW_TOOLS. called_in events t"
    then have "next_index Map.empty events = 5"
      by (intro next_index_all) (simp add: captain_observed_def)
    then show "contents_out (enforce_captain_workflow ''captain_agent'' events Map.empty contents) = contents"
      by (simp add: enforce_captain_workflow_eq return_none_def)
  qed
  show ?thesis using a b c d by blast
qed

theorem gates_replay_event_log_witness:
  "distinct [''get_menu'', ''get_customer_orders'']
   \<and> set [''get_menu'', ''get_customer_orders''] = REQUIRED_WAITER_TOOLS
   \<and> list_all (called_in
         (map (\<lambda>n. \<lparr>function_call = Some n, function_response = None\<rparr>)
            (''get_menu'' # ''get_customer_orders'' # CAPTAIN_WORKFLOW_TOOLS)))
         (''get_menu'' # ''get_customer_orders'' # CAPTAIN_WORKFLOW_TOOLS)
   \<and> contents_out (enforce_waiter_prerequisites [''get_menu'', ''get_customer_orders''] ''waiter_agent''
        (map (\<lambda>n. \<lparr>function_call = Some n, function_response = None\<rparr>)
            (''get_menu'' # ''get_customer_orders'' # CAPTAIN_WORKFLOW_TOOLS)) Map.empty []) = []
   \<and> contents_out (enforce_captain_workflow ''captain_agent''
        (map (\<lambda>n. \<lparr>function_call = Some n, function_response = None\<rparr>)
            (''get_menu'' # ''get_customer_orders'' # CAPTAIN_WORKFLOW_TOOLS)) Map.empty []) = []
   \<and> state_out (enforce_waiter_prerequisites [''get_menu'', ''get_customer_orders''] ''waiter_agent''
        (map (\<lambda>n. \<lparr>function_call = Some n, function_response = None\<rparr>)
            (''get_menu'' # ''get_customer_orders'' # CAPTAIN_WORKFLOW_TOOLS)) Map.empty [])
        (waiter_key ''get_menu'') = Some (PBool True)"
proof -
  let ?evs = "map (\<lambda>n. \<lparr>function_call = Some n, function_response = None\<rparr>)
                (''get_menu'' # ''get_customer_orders'' # CAPTAIN_WORKFLOW_TOOLS)"
  have s: "set [''get_menu'', ''get_customer_orders''] = REQUIRED_WAITER_TOOLS"
    by (auto simp: REQUIRED_WAITER_TOOLS_def)
  have l: "list_all (called_in ?evs) (''get_menu'' # ''get_customer_orders'' # CAPTAIN_WORKFLOW_TOOLS)"
    by (simp add: CAPTAIN_WORKFLOW_TOOLS_def called_in_def)
  have w: "\<forall>t \<in> REQUIRED_WAITER_TOOLS. called_in ?evs t"
    using l by (simp add: REQUIRED_WAITER_TOOLS_def)
  have c: "\<forall>t \<in> set CAPTAIN_WORKFLOW_TOOLS. called_in ?evs t"
    using l by (simp add: list_all_iff)
  have r: "contents_out (enforce_waiter_prerequisites [''get_menu'', ''get_customer_orders'']
                ''waiter_agent'' ?evs Map.empty []) = []
           \<and> contents_out (enforce_captain_workflow ''captain_agent'' ?evs Map.empty []) = []
           \<and> state_out (enforce_waiter_prerequisites [''get_menu'', ''get_customer_orders'']
                ''waiter_agent'' ?evs Map.empty []) (waiter_key ''get_menu'') = Some (PBool True)"
    using s w c
      gates_replay_event_log [of "[''get_menu'', ''get_customer_orders'']" ?evs Map.empty "[]"
        "waiter_key ''get_menu''"]
    by (simp add: REQUIRED_WAITER_TOOLS_def)
  show ?thesis using s l r by simp
qed

text \<open>
  The claim as stated restricts the replay to steps that appear as a call with its
  response. A log whose only event is a call without a response is not such a pair, and
  both gates still set the flag.
\<close>

theorem replay_counts_unanswered_call_counterexample:
  "\<not> paired_in [\<lparr>function_call = Some ''get_menu'', function_response = None\<rparr>] ''get_menu''
   \<and> state_out (enforce_waiter_prerequisites [''get_menu'', ''get_customer_orders''] ''waiter_agent''
        [\<lparr>function_call = Some ''get_menu'', function_response = None\<rparr>] Map.empty [])
        (waiter_key ''get_menu'') = Some (PBool True)
   \<and> \<not> paired_in [\<lparr>function_call = Some ''get_customer'', function_response = None\<rparr>] ''get_customer''
   \<and> state_out (enforce_captain_workflow ''captain_agent''
        [\<lparr>function_call = Some ''get_customer'', function_response = None\<rparr>] Map.empty [])
        (captain_key ''get_customer'') = Some (PBool True)"
  by (simp add: paired_in_def waiter_state_out captain_state_out waiter_replay_def
                captain_replay_apply called_in_def REQUIRED_WAITER_TOOLS_def
                CAPTAIN_WORKFLOW_TOOLS_def)

subsection \<open>The captain gate\<close>

lemma find_customer_id_eq:
  "find_customer_id es =
     Inr (case find (\<lambda>e. function_call e = Some ''get_customer'') es of
            None \<Rightarrow> PNone | Some e \<Rightarrow> response_id e)"
  by (induction es)
     (auto simp: response_id_def py_getitem_def split: option.splits response.splits)

lemma instruction_for_get_reservations:
  "instruction_for ''get_reservations'' events =
     (case get_reservations_text (customer_id_of events) of
        Inl err \<Rightarrow> Inl err
      | Inr instr \<Rightarrow> Inr (Some instr))"
  by (simp add: instruction_for_def find_customer_id_eq last_get_customer_def customer_id_of_def)

lemma CWT_nth:
  "CAPTAIN_WORKFLOW_TOOLS ! 0 = ''get_customer''"
  "CAPTAIN_WORKFLOW_TOOLS ! Suc 0 = ''get_reservations''"
  "CAPTAIN_WORKFLOW_TOOLS ! 2 = ''check_table_availability''"
  "CAPTAIN_WORKFLOW_TOOLS ! 3 = ''assign_table''"
  "CAPTAIN_WORKFLOW_TOOLS ! 4 = ''transfer_to_agent''"
  by (simp_all add: CAPTAIN_WORKFLOW_TOOLS_def)



lemma power_ten_not_le_zero: "\<not> (10::int) ^ n \<le> 0"
  by (simp add: not_le)

lemma falsy_formattable: "\<not> truthy v \<Longrightarrow> formattable v"
  by (cases v) (auto simp: formattable_def power_ten_not_le_zero)
















lemma called_in_append: "called_in events t \<Longrightarrow> called_in (events @ later) t"
  by (simp add: called_in_def)

lemma captain_observed_later:
  "captain_observed st events t \<Longrightarrow> captain_observed (run_session cbs st) (events @ later) t"
  using run_session_truthy [of st "captain_key t" cbs] called_in_append [of events t later]
  by (auto simp: captain_observed_def)

text \<open>
  Once every step of \<^verbatim>\<open>CAPTAIN_WORKFLOW_TOOLS\<close>, up to and including
  \<^verbatim>\<open>transfer_to_agent\<close>, has been observed in the state or the event log, every later
  evaluation of the captain gate in the session (after any further callbacks, on any
  extension of the log, for any request) returns \<^verbatim>\<open>None\<close> and inserts nothing.
\<close>

theorem captain_gate_passes_after_workflow:
  assumes "\<forall>t \<in> set CAPTAIN_WORKFLOW_TOOLS. captain_observed st events t"
  shows "contents_out (enforce_captain_workflow ''captain_agent'' (events @ later)
                         (run_session cbs st) contents) = contents
         \<and> outcome (enforce_captain_workflow ''captain_agent'' (events @ later)
                         (run_session cbs st) contents) = Inr None"
proof -
  have "\<forall>t \<in> set CAPTAIN_WORKFLOW_TOOLS. captain_observed (run_session cbs st) (events @ later) t"
    using assms by (simp add: captain_observed_later)
  then have "next_index (run_session cbs st) (events @ later) = 5"
    by (rule next_index_all)
  then show ?thesis
    by (simp add: enforce_captain_workflow_eq return_none_def captain_outcome_pass)
qed

theorem captain_gate_passes_after_workflow_witness:
  "list_all (captain_observed (Map.empty(captain_key ''get_customer'' \<mapsto> PBool True))
       (map (\<lambda>n. \<lparr>function_call = Some n, function_response = None\<rparr>)
          [''get_reservations'', ''check_table_availability'', ''assign_table'', ''transfer_to_agent'']))
     CAPTAIN_WORKFLOW_TOOLS
   \<and> contents_out (enforce_captain_workflow ''captain_agent''
        (map (\<lambda>n. \<lparr>function_call = Some n, function_response = None\<rparr>)
          [''get_reservations'', ''check_table_availability'', ''assign_table'', ''transfer_to_agent'']
         @ [\<lparr>function_call = None, function_response = None\<rparr>])
        (run_session [TrackWaiter ''get_menu'', EnforceCaptain ''captain_agent'' [] []]
           (Map.empty(captain_key ''get_customer'' \<mapsto> PBool True)))
        [\<lparr>role = ''user'', parts = []\<rparr>]) = [\<lparr>role = ''user'', parts = []\<rparr>]"
proof -
  have a: "list_all (captain_observed (Map.empty(captain_key ''get_customer'' \<mapsto> PBool True))
       (map (\<lambda>n. \<lparr>function_call = Some n, function_response = None\<rparr>)
          [''get_reservations'', ''check_table_availability'', ''assign_table'', ''transfer_to_agent'']))
     CAPTAIN_WORKFLOW_TOOLS"
    by (simp add: CAPTAIN_WORKFLOW_TOOLS_def captain_observed_def state_get_def called_in_def)
  show ?thesis
    using a captain_gate_passes_after_workflow [OF a [unfolded list_all_iff],
      of "[\<lparr>function_call = None, function_response = None\<rparr>]"
         "[TrackWaiter ''get_menu'', EnforceCaptain ''captain_agent'' [] []]"
         "[\<lparr>role = ''user'', parts = []\<rparr>]"]
    by simp
qed

text \<open>
  Claim C1. Once the terminal step \<^verbatim>\<open>transfer_to_agent\<close> has been observed, the captain
  gate is to pass on every later evaluation, also when earlier steps were skipped; the
  comment on the completion test says the same (\<^verbatim>\<open>transfer_to_agent called\<close>). The test
  compares the strict-prefix index with the last index, so it misses the terminal step
  when a step before it is not recorded: with \<^verbatim>\<open>get_customer\<close> and \<^verbatim>\<open>transfer_to_agent\<close>
  recorded and the steps between them not, and no tool call in the request, the gate
  inserts the directive for \<^verbatim>\<open>get_reservations\<close>.
\<close>

theorem terminal_step_alone_injects:
  "captain_observed (Map.empty(captain_key ''get_customer'' \<mapsto> PBool True,
                               captain_key ''transfer_to_agent'' \<mapsto> PBool True)) [] ''transfer_to_agent''
   \<and> \<not> has_tool_calls []
   \<and> contents_out (enforce_captain_workflow ''captain_agent'' []
        (Map.empty(captain_key ''get_customer'' \<mapsto> PBool True,
                   captain_key ''transfer_to_agent'' \<mapsto> PBool True)) [])
      = insert_instruction reservations_text_without_id []
   \<and> insert_instruction reservations_text_without_id [] \<noteq> []"
proof -
  let ?st = "Map.empty(captain_key ''get_customer'' \<mapsto> PBool True,
                       captain_key ''transfer_to_agent'' \<mapsto> PBool True)"
  have t: "captain_observed ?st [] ''transfer_to_agent''"
    by (simp add: captain_observed_def state_get_def)
  have h: "\<not> has_tool_calls []" by (simp add: has_tool_calls_def)
  have n: "next_index ?st [] = 1"
    by (simp add: next_index_def CAPTAIN_WORKFLOW_TOOLS_def captain_observed_def state_get_def
                  called_in_def)
  have g: "get_reservations_text (customer_id_of []) = Inr reservations_text_without_id"
    by (simp add: customer_id_of_def last_get_customer_def get_reservations_text_def)
  have i: "instruction_for (CAPTAIN_WORKFLOW_TOOLS ! Suc 0) []
             = Inr (Some reservations_text_without_id)"
    by (simp only: CWT_nth instruction_for_get_reservations g sum.case)
  have c: "contents_out (enforce_captain_workflow ''captain_agent'' [] ?st [])
             = insert_instruction reservations_text_without_id []"
    by (simp add: enforce_captain_workflow_eq i h n return_none_def Let_def)
  show ?thesis using t h c by (simp add: insert_instruction_def)
qed








end
